theory Spec2Isabelle
  imports Main "HOL-Library.Sublist" "HOL-Library.Char_ord" "HOL-Library.List_Lexorder"
begin

section \<open>Data model\<close>

text \<open>
  Go's \<^verbatim>\<open>error\<close> values produced by the package. \<open>ErrMsg\<close> carries the message of
  \<^verbatim>\<open>errors.New\<close> or of a \<^verbatim>\<open>fmt.Errorf\<close> without verbs, and also stands for the error a
  \<^verbatim>\<open>driver.Valuer\<close> returns. The two messages that format their operand
  (\<^verbatim>\<open>"%#v is not a string or SQLizer"\<close> in \<^verbatim>\<open>concatExpr.ToSQL\<close> and
  \<^verbatim>\<open>"expected string or SQLizer, not %T"\<close> in \<^verbatim>\<open>part.ToSQL\<close>) have a constructor each.
\<close>

datatype error =
    ErrMsg string
  | ErrNotStringOrSQLizer
  | ErrExpectedStringOrSQLizer

text \<open>
  A Go slice \<^verbatim>\<open>[]interface{}\<close> is \<open>None\<close> when it is \<^verbatim>\<open>nil\<close> and \<open>Some xs\<close> when it is
  allocated; \<open>Some []\<close> is the empty, non-nil slice \<^verbatim>\<open>[]interface{}{}\<close>. Both have
  length 0, and \<^verbatim>\<open>reflect.DeepEqual\<close> (so \<^verbatim>\<open>assert.Equal\<close>) tells them apart.
\<close>

type_synonym 'a slice = "'a list option"

fun elems :: "'a slice \<Rightarrow> 'a list" where
  "elems None = []"
| "elems (Some xs) = xs"

text \<open>\<^verbatim>\<open>append(s, xs...)\<close>: appending nothing to a nil slice leaves it nil.\<close>

fun goAppend :: "'a slice \<Rightarrow> 'a list \<Rightarrow> 'a slice" where
  "goAppend None [] = None"
| "goAppend None (x # xs) = Some (x # xs)"
| "goAppend (Some ys) xs = Some (ys @ xs)"

text \<open>
  The values an \<^verbatim>\<open>interface{}\<close> holds, as far as the renderers tell them apart:
  \<^item> \<open>VNil\<close>: the untyped \<^verbatim>\<open>nil\<close>;
  \<^item> \<open>VInt\<close>, \<open>VStr\<close>: scalars; \<open>VBytes\<close>: a \<^verbatim>\<open>[]byte\<close>, which \<^verbatim>\<open>driver.IsValue\<close> accepts, so
    \<^verbatim>\<open>isListType\<close> is false on it;
  \<^item> \<open>VList\<close>: any other slice or array (a nil slice is \<open>VList []\<close>: only \<^verbatim>\<open>Len\<close> and
    \<^verbatim>\<open>Index\<close> are read);
  \<^item> \<open>VNilPtr\<close>, \<open>VPtr v\<close>: a nil pointer, and a pointer to \<open>v\<close>, of a pointer type without
    methods (\<^verbatim>\<open>*string\<close>, \<^verbatim>\<open>*[]int\<close>, \<^verbatim>\<open>*[3]int\<close> as in \<^verbatim>\<open>TestNilPointer\<close>);
  \<^item> \<open>VValuer v\<close>, \<open>VValuerErr e\<close>: a \<^verbatim>\<open>driver.Valuer\<close> whose \<^verbatim>\<open>Value()\<close> returns
    \<^verbatim>\<open>(v, nil)\<close>, or the error \<open>e\<close>. A valuer whose \<^verbatim>\<open>Value()\<close> does not return is not a
    value of this type: Go panics in that call on a nil pointer whose type has
    \<^verbatim>\<open>Value\<close> with a value receiver, such as \<^verbatim>\<open>(*sql.NullString)(nil)\<close>, so the
    theorems below do not cover a map that holds one;
  \<^item> \<open>VSqlizer f\<close>: a value that implements \<^verbatim>\<open>SQLizer\<close>.

  The fragments are the \<^verbatim>\<open>SQLizer\<close> implementations of \<^verbatim>\<open>expr.go\<close>, \<^verbatim>\<open>part.go\<close> and
  \<^verbatim>\<open>case.go\<close>. A predicate map is the list of its entries in the order in which
  \<^verbatim>\<open>range\<close> happens to visit them (Go leaves that order unspecified); its keys are
  distinct. \<open>Case\<close> is \<^verbatim>\<open>caseData\<close>: \<^verbatim>\<open>What\<close> and \<^verbatim>\<open>Else\<close> are \<open>None\<close> when nil.
\<close>

datatype val =
    VNil
  | VInt int
  | VStr string
  | VBytes string
  | VList "val list"
  | VNilPtr
  | VPtr val
  | VValuer val
  | VValuerErr error
  | VSqlizer sqlizer
and sqlizer =
    Expr string "val list option"
  | ConcatExpr "val list"
  | Alias sqlizer string
  | Eq "(string \<times> val) list"
  | NotEq "(string \<times> val) list"
  | Like "(string \<times> val) list"
  | NotLike "(string \<times> val) list"
  | ILike "(string \<times> val) list"
  | NotILike "(string \<times> val) list"
  | Lt "(string \<times> val) list"
  | LtOrEq "(string \<times> val) list"
  | Gt "(string \<times> val) list"
  | GtOrEq "(string \<times> val) list"
  | And "sqlizer list"
  | Or "sqlizer list"
  | Part val "val list option"
  | Case "sqlizer option" "(sqlizer \<times> sqlizer) list" "sqlizer option"

text \<open>What \<^verbatim>\<open>ToSQL\<close> returns: the text, the arguments, and the error (\<open>None\<close> is nil).\<close>

type_synonym result = "string \<times> val slice \<times> error option"

definition sqlTrue :: string where
  "sqlTrue = ''(1=1)''"

definition sqlFalse :: string where
  "sqlFalse = ''(1=0)''"

section \<open>Strings\<close>

text \<open>
  \<^verbatim>\<open>strings.Index(s, sub)\<close>: the index of the first occurrence of \<open>sub\<close> in \<open>s\<close>;
  \<open>None\<close> is Go's \<open>-1\<close>.
\<close>

fun strIndex :: "string \<Rightarrow> string \<Rightarrow> nat option" where
  "strIndex [] sub = (if sub = [] then Some 0 else None)"
| "strIndex (c # cs) sub =
     (if prefix sub (c # cs) then Some 0 else map_option Suc (strIndex cs sub))"

text \<open>\<^verbatim>\<open>strings.Join(xs, sep)\<close>.\<close>

fun joinStr :: "string list \<Rightarrow> string \<Rightarrow> string" where
  "joinStr [] sep = []"
| "joinStr [x] sep = x"
| "joinStr (x # y # ys) sep = x @ sep @ joinStr (y # ys) sep"

text \<open>
  Modelled from the spec: \<^verbatim>\<open>Placeholders\<close> is called by \<^verbatim>\<open>Eq.toSQL\<close> and is not among the
  source files. The spec says a non-empty list renders
  \<^verbatim>\<open>column (NOT) IN (<one marker per element>)\<close>, and \<^verbatim>\<open>TestEqInToSQL\<close> expects
  \<^verbatim>\<open>"id IN (?,?,?)"\<close> for three elements: one marker per element, separated by commas.
\<close>

definition Placeholders :: "nat \<Rightarrow> string" where
  "Placeholders count = joinStr (replicate count ''?'') '',''"

section \<open>Predicate maps\<close>

text \<open>
  \<^verbatim>\<open>getSortedKeys\<close>: the keys, sorted by \<^verbatim>\<open>sort.Strings\<close> (byte-wise lexicographic order,
  which is the order of \<open>char list\<close>).
\<close>

definition getSortedKeys :: "(string \<times> val) list \<Rightarrow> string list" where
  "getSortedKeys exp = sort (map fst exp)"

text \<open>
  \<^verbatim>\<open>reflect\<close>'s view of a slice or array value: its elements. \<^verbatim>\<open>And\<close>, \<^verbatim>\<open>Or\<close> and
  \<^verbatim>\<open>concatExpr\<close> are slice types. \<^verbatim>\<open>isListType\<close> is false on every \<^verbatim>\<open>driver.Value\<close>
  (so on \<^verbatim>\<open>[]byte\<close>) and true on the other slices and arrays.
\<close>

fun listElems :: "val \<Rightarrow> val list option" where
  "listElems (VList xs) = Some xs"
| "listElems (VSqlizer (And c)) = Some (map VSqlizer c)"
| "listElems (VSqlizer (Or c)) = Some (map VSqlizer c)"
| "listElems (VSqlizer (ConcatExpr ce)) = Some ce"
| "listElems v = None"

definition isListType :: "val \<Rightarrow> bool" where
  "isListType v = (listElems v \<noteq> None)"

text \<open>
  The map index expression \<^verbatim>\<open>m[key]\<close>: the value stored under the key, and nil when
  the key is absent.
\<close>

definition mapIndex :: "(string \<times> val) list \<Rightarrow> string \<Rightarrow> val" where
  "mapIndex m key = (case map_of m key of None \<Rightarrow> VNil | Some v \<Rightarrow> v)"

text \<open>
  The type switch \<^verbatim>\<open>case driver.Valuer\<close> of the three renderers: a valuer is replaced
  by what its \<^verbatim>\<open>Value()\<close> returns, or its error ends the render; any other value
  stays. The two outcomes are those of a call that returns; the values of \<open>val\<close> have
  no other (see \<open>VValuer\<close> above).
\<close>

fun valuerValue :: "val \<Rightarrow> error + val" where
  "valuerValue (VValuer v) = Inr v"
| "valuerValue (VValuerErr e) = Inl e"
| "valuerValue v = Inr v"

text \<open>
  The pointer step of \<^verbatim>\<open>Eq.toSQL\<close>: a nil pointer becomes nil, another pointer becomes
  what it points to (\<^verbatim>\<open>r.Elem().Interface()\<close>).
\<close>

fun ptrElem :: "val \<Rightarrow> val" where
  "ptrElem VNilPtr = VNil"
| "ptrElem (VPtr r) = r"
| "ptrElem v = v"

text \<open>
  The loop of \<^verbatim>\<open>Eq.toSQL\<close> over the sorted keys, with the state it updates: \<open>exprs\<close>
  and the named result \<open>args\<close>. A failing \<^verbatim>\<open>Value()\<close> returns at once, with \<open>sql\<close> still
  empty and \<open>args\<close> as they are.
\<close>

fun eqLoop :: "bool \<Rightarrow> (string \<times> val) list \<Rightarrow> string list \<Rightarrow> string list \<Rightarrow> val slice \<Rightarrow> result" where
  "eqLoop useNotOpr eq [] exprs args = (joinStr exprs '' AND '', args, None)"
| "eqLoop useNotOpr eq (key # keys) exprs args =
     (let equalOpr = (if useNotOpr then ''<>'' else ''='');
          inOpr = (if useNotOpr then ''NOT IN'' else ''IN'');
          nullOpr = (if useNotOpr then ''IS NOT'' else ''IS'');
          inEmptyExpr = (if useNotOpr then sqlTrue else sqlFalse);
          val0 = mapIndex eq key
      in case valuerValue val0 of
           Inl e \<Rightarrow> ([], args, Some e)
         | Inr val1 \<Rightarrow>
             (let val = ptrElem val1
              in if val = VNil then
                   eqLoop useNotOpr eq keys (exprs @ [key @ '' '' @ nullOpr @ '' NULL'']) args
                 else (case listElems val of
                     Some valVal \<Rightarrow>
                       if length valVal = 0 then
                         eqLoop useNotOpr eq keys (exprs @ [inEmptyExpr])
                           (if args = None then Some [] else args)
                       else
                         eqLoop useNotOpr eq keys
                           (exprs @ [key @ '' '' @ inOpr @ '' ('' @ Placeholders (length valVal) @ '')''])
                           (goAppend args valVal)
                   | None \<Rightarrow>
                       eqLoop useNotOpr eq keys (exprs @ [key @ '' '' @ equalOpr @ '' ?''])
                         (goAppend args [val]))))"

text \<open>\<^verbatim>\<open>Eq.toSQL\<close>.\<close>

definition Eq_toSQL :: "(string \<times> val) list \<Rightarrow> bool \<Rightarrow> result" where
  "Eq_toSQL eq useNotOpr =
     (if length eq = 0 then (sqlTrue, None, None)
      else eqLoop useNotOpr eq (getSortedKeys eq) [] None)"

text \<open>
  \<^verbatim>\<open>Like.toSQL\<close>: the loop ranges over the map itself, so it visits the entries in the
  order \<^verbatim>\<open>range\<close> yields them. There is no pointer handling here.
\<close>

fun likeLoop :: "string \<Rightarrow> (string \<times> val) list \<Rightarrow> string list \<Rightarrow> val slice \<Rightarrow> result" where
  "likeLoop opr [] exprs args = (joinStr exprs '' AND '', args, None)"
| "likeLoop opr ((key, val0) # lk) exprs args =
     (case valuerValue val0 of
        Inl e \<Rightarrow> ([], args, Some e)
      | Inr val \<Rightarrow>
          if val = VNil then
            ([], args, Some (ErrMsg ''cannot use null with like operators''))
          else if isListType val then
            ([], args, Some (ErrMsg ''cannot use array or slice with like operators''))
          else
            likeLoop opr lk (exprs @ [key @ '' '' @ opr @ '' ?'']) (goAppend args [val]))"

definition Like_toSQL :: "(string \<times> val) list \<Rightarrow> string \<Rightarrow> result" where
  "Like_toSQL lk opr = likeLoop opr lk [] None"

text \<open>\<^verbatim>\<open>Lt.toSQL\<close>: sorted keys, no pointer handling.\<close>

fun ltLoop :: "string \<Rightarrow> (string \<times> val) list \<Rightarrow> string list \<Rightarrow> string list \<Rightarrow> val slice \<Rightarrow> result" where
  "ltLoop opr lt [] exprs args = (joinStr exprs '' AND '', args, None)"
| "ltLoop opr lt (key # keys) exprs args =
     (let val0 = mapIndex lt key
      in case valuerValue val0 of
           Inl e \<Rightarrow> ([], args, Some e)
         | Inr val \<Rightarrow>
             if val = VNil then
               ([], args, Some (ErrMsg ''cannot use null with less than or greater than operators''))
             else if isListType val then
               ([], args,
                Some (ErrMsg ''cannot use array or slice with less than or greater than operators''))
             else
               ltLoop opr lt keys (exprs @ [key @ '' '' @ opr @ '' ?'']) (goAppend args [val]))"

definition Lt_toSQL :: "(string \<times> val) list \<Rightarrow> bool \<Rightarrow> bool \<Rightarrow> result" where
  "Lt_toSQL lt opposite orEq =
     (let opr = (if opposite then ''>'' else ''<'');
          opr = (if orEq then opr @ ''='' else opr)
      in ltLoop opr lt (getSortedKeys lt) [] None)"

section \<open>Rendering\<close>

text \<open>
  \<^verbatim>\<open>sqlizerBuffer\<close> of \<^verbatim>\<open>case.go\<close>: the text written so far, the arguments, and the
  first error.
\<close>

record sqlizerBuffer =
  buf :: string
  args :: "val slice"
  err :: "error option"

definition WriteString :: "sqlizerBuffer \<Rightarrow> string \<Rightarrow> sqlizerBuffer" where
  "WriteString b s = b\<lparr>buf := buf b @ s\<rparr>"

text \<open>
  \<^verbatim>\<open>WriteSQL\<close>, given the render \<open>r\<close> of the item (\<^verbatim>\<open>nestedToSQL(item)\<close>). Rendering has
  no effect on any state, so passing its value in does not change what the buffer
  becomes; a buffer that already holds an error ignores it.
\<close>

definition WriteSQL_result :: "sqlizerBuffer \<Rightarrow> result \<Rightarrow> sqlizerBuffer" where
  "WriteSQL_result b r =
     (if err b \<noteq> None then b
      else (case r of
          (str, as, Some e) \<Rightarrow> b\<lparr>err := Some e\<rparr>
        | (str, as, None) \<Rightarrow> b\<lparr>buf := buf b @ str @ '' '', args := goAppend (args b) (elems as)\<rparr>))"

text \<open>The type assertion \<^verbatim>\<open>arg.(SQLizer)\<close>.\<close>

fun isSQLizer :: "val \<Rightarrow> bool" where
  "isSQLizer (VSqlizer s) = True"
| "isSQLizer v = False"

text \<open>
  \<^verbatim>\<open>ToSQL\<close> of every fragment, with the loops it runs:
  \<^item> \<open>exprLoop sp ap bf as\<close> is the loop of \<^verbatim>\<open>expr.ToSQL\<close> with the rest of the text, the
    pending arguments, the buffer and the named result \<^verbatim>\<open>args\<close>; when a nested render
    fails the loop condition \<^verbatim>\<open>err == nil\<close> ends it after the step, and the function
    returns the buffer with the rest of the text, and the arguments with the pending ones;
  \<^item> \<open>concatLoop\<close> is the loop of \<^verbatim>\<open>concatExpr.ToSQL\<close>;
  \<^item> \<open>joinLoop\<close> is the loop of \<^verbatim>\<open>conj.join\<close> with what follows it;
  \<^item> \<open>whenLoop\<close> is the loop of \<^verbatim>\<open>caseData.ToSQL\<close> over \<^verbatim>\<open>WhenParts\<close>.
  \<^verbatim>\<open>nestedToSQL\<close> calls \<^verbatim>\<open>toSQLRaw\<close> on a \<^verbatim>\<open>rawSQLizer\<close> and \<^verbatim>\<open>ToSQL\<close> otherwise; none of
  the fragments here has a \<^verbatim>\<open>toSQLRaw\<close> method, so it is \<^verbatim>\<open>ToSQL\<close>.
\<close>

function (sequential) ToSQL :: "sqlizer \<Rightarrow> result"
  and exprLoop :: "string \<Rightarrow> val list \<Rightarrow> string \<Rightarrow> val slice \<Rightarrow> result"
  and concatLoop :: "val list \<Rightarrow> string \<Rightarrow> val slice \<Rightarrow> result"
  and joinLoop :: "string \<Rightarrow> sqlizer list \<Rightarrow> string list \<Rightarrow> val slice \<Rightarrow> result"
  and whenLoop :: "(sqlizer \<times> sqlizer) list \<Rightarrow> sqlizerBuffer \<Rightarrow> sqlizerBuffer"
where
  "ToSQL (Expr sql as) =
     (if list_all (\<lambda>arg. \<not> isSQLizer arg) (elems as) then (sql, as, None)
      else exprLoop sql (elems as) [] None)"
| "ToSQL (ConcatExpr ce) = concatLoop ce [] None"
| "ToSQL (Alias e alias) =
     (case ToSQL e of
        (sql, as, None) \<Rightarrow> (''('' @ sql @ '') AS '' @ alias, as, None)
      | (sql, as, Some er) \<Rightarrow> (sql, as, Some er))"
| "ToSQL (Eq eq) = Eq_toSQL eq False"
| "ToSQL (NotEq neq) = Eq_toSQL neq True"
| "ToSQL (Like lk) = Like_toSQL lk ''LIKE''"
| "ToSQL (NotLike nlk) = Like_toSQL nlk ''NOT LIKE''"
| "ToSQL (ILike ilk) = Like_toSQL ilk ''ILIKE''"
| "ToSQL (NotILike nilk) = Like_toSQL nilk ''NOT ILIKE''"
| "ToSQL (Lt lt) = Lt_toSQL lt False False"
| "ToSQL (LtOrEq ltOrEq) = Lt_toSQL ltOrEq False True"
| "ToSQL (Gt gt) = Lt_toSQL gt True False"
| "ToSQL (GtOrEq gtOrEq) = Lt_toSQL gtOrEq True True"
| "ToSQL (And c) =
     (if length c = 0 then (sqlTrue, Some [], None) else joinLoop '' AND '' c [] None)"
| "ToSQL (Or c) =
     (if length c = 0 then (sqlFalse, Some [], None) else joinLoop '' OR '' c [] None)"
| "ToSQL (Part pred as) =
     (case pred of
        VNil \<Rightarrow> ([], None, None)
      | VSqlizer s \<Rightarrow> ToSQL s
      | VStr s \<Rightarrow> (s, as, None)
      | _ \<Rightarrow> ([], None, Some ErrExpectedStringOrSQLizer))"
| "ToSQL (Case what whenParts els) =
     (if length whenParts = 0 then
        ([], None, Some (ErrMsg ''case expression must contain at lease one WHEN clause''))
      else
        (let sql = \<lparr>buf = [], args = None, err = None\<rparr>;
             sql = WriteString sql ''CASE '';
             sql = (case what of None \<Rightarrow> sql | Some w \<Rightarrow> WriteSQL_result sql (ToSQL w));
             sql = whenLoop whenParts sql;
             sql = (case els of None \<Rightarrow> sql
                    | Some e \<Rightarrow> WriteSQL_result (WriteString sql ''ELSE '') (ToSQL e));
             sql = WriteString sql ''END''
         in (buf sql, args sql, err sql)))"
| "exprLoop sp ap bf as =
     (if length ap > 0 \<and> length sp > 0 then
        (case strIndex sp ''?'' of
           None \<Rightarrow> (bf @ sp, goAppend as ap, None)
         | Some i \<Rightarrow>
             if length sp > i + 1 \<and> take 1 (drop (i + 1) sp) = ''?'' then
               exprLoop (drop (i + 2) sp) ap (bf @ take (i + 2) sp) as
             else
               (case ap of
                  VSqlizer s # ap' \<Rightarrow>
                    (case ToSQL s of
                       (isql, iargs, None) \<Rightarrow>
                         exprLoop (drop (i + 1) sp) ap' (bf @ take i sp @ isql)
                           (goAppend as (elems iargs))
                     | (isql, iargs, Some e) \<Rightarrow>
                         (bf @ take i sp @ isql @ drop (i + 1) sp,
                          goAppend (goAppend as (elems iargs)) ap', Some e))
                | a # ap' \<Rightarrow>
                    exprLoop (drop (i + 1) sp) ap' (bf @ take (i + 1) sp) (goAppend as [a])))
      else (bf @ sp, goAppend as ap, None))"
| "concatLoop [] sql as = (sql, as, None)"
| "concatLoop (part # ce) sql as =
     (case part of
        VStr p \<Rightarrow> concatLoop ce (sql @ p) as
      | VSqlizer p \<Rightarrow>
          (case ToSQL p of
             (pSQL, pArgs, Some e) \<Rightarrow> ([], None, Some e)
           | (pSQL, pArgs, None) \<Rightarrow> concatLoop ce (sql @ pSQL) (goAppend as (elems pArgs)))
      | _ \<Rightarrow> ([], None, Some ErrNotStringOrSQLizer))"
| "joinLoop sep [] sqlParts as =
     (if length sqlParts > 0 then (''('' @ joinStr sqlParts sep @ '')'', as, None)
      else ([], as, None))"
| "joinLoop sep (s # c) sqlParts as =
     (case ToSQL s of
        (partSQL, partArgs, Some e) \<Rightarrow> ([], None, Some e)
      | (partSQL, partArgs, None) \<Rightarrow>
          if partSQL \<noteq> [] then joinLoop sep c (sqlParts @ [partSQL]) (goAppend as (elems partArgs))
          else joinLoop sep c sqlParts as)"
| "whenLoop [] sql = sql"
| "whenLoop (p # whenParts) sql =
     whenLoop whenParts
       (WriteSQL_result (WriteString
          (WriteSQL_result (WriteString sql ''WHEN '') (ToSQL (fst p))) ''THEN '') (ToSQL (snd p)))"
  by pat_completeness auto
termination
  apply (relation "(\<lambda>x. case x of
       Inl (Inl s) \<Rightarrow> size s
     | Inl (Inr (sp, ap, bf, as)) \<Rightarrow> size_list size ap
     | Inr (Inl (ce, sql, as)) \<Rightarrow> size_list size ce
     | Inr (Inr (Inl (sep, c, sqlParts, as))) \<Rightarrow> size_list size c
     | Inr (Inr (Inr (whenParts, sql))) \<Rightarrow> size_list (size_prod size size) whenParts)
    <*mlex*> (\<lambda>x. case x of
       Inl (Inr (sp, ap, bf, as)) \<Rightarrow> length sp
     | _ \<Rightarrow> 0) <*mlex*> {}")
   apply (auto simp: wf_mlex mlex_prod_def)
  apply (case_tac as; simp)
  done

text \<open>\<^verbatim>\<open>conj.join\<close>, as \<^verbatim>\<open>And.ToSQL\<close> and \<^verbatim>\<open>Or.ToSQL\<close> call it.\<close>

definition conj_join :: "sqlizer list \<Rightarrow> string \<Rightarrow> string \<Rightarrow> result" where
  "conj_join c sep defaultExpr =
     (if length c = 0 then (defaultExpr, Some [], None) else joinLoop sep c [] None)"

section \<open>Debug rendering\<close>

text \<open>
  What \<^verbatim>\<open>fmt\<close> prints for the verbs \<^verbatim>\<open>DebugSQLizer\<close> uses is a parameter: \<open>fmtErr\<close> is
  \<^verbatim>\<open>%s\<close> of an error, \<open>fmtV\<close> is \<^verbatim>\<open>%v\<close> of an argument, \<open>fmtSharpV\<close> is \<^verbatim>\<open>%#v\<close> of a
  string, \<open>fmtD\<close> is \<^verbatim>\<open>%d\<close> of a length.
\<close>

record fmt =
  fmtErr :: "error \<Rightarrow> string"
  fmtV :: "val \<Rightarrow> string"
  fmtSharpV :: "string \<Rightarrow> string"
  fmtD :: "nat \<Rightarrow> string"

text \<open>The two diagnostics of \<^verbatim>\<open>DebugSQLizer\<close>, as \<^verbatim>\<open>fmt.Sprintf\<close> builds them.\<close>

definition tooManyPlaceholders :: "fmt \<Rightarrow> string \<Rightarrow> nat \<Rightarrow> string" where
  "tooManyPlaceholders F sql n =
     ''[DebugSQLizer error: too many placeholders in '' @ fmtSharpV F sql @ '' for ''
       @ fmtD F n @ '' args]''"

definition notEnoughPlaceholders :: "fmt \<Rightarrow> string \<Rightarrow> nat \<Rightarrow> string" where
  "notEnoughPlaceholders F sql n =
     ''[DebugSQLizer error: not enough placeholders in '' @ fmtSharpV F sql @ '' for ''
       @ fmtD F n @ '' args]''"

text \<open>The code after the loop of \<^verbatim>\<open>DebugSQLizer\<close>.\<close>

definition debugFinish :: "fmt \<Rightarrow> string \<Rightarrow> val list \<Rightarrow> string \<Rightarrow> nat \<Rightarrow> string" where
  "debugFinish F sql as bf i =
     (if i < length as then notEnoughPlaceholders F sql (length as)
      else bf @ sql)"

text \<open>
  The loop of \<^verbatim>\<open>DebugSQLizer\<close>. The fragments of this theory have no
  \<^verbatim>\<open>debugPlaceholder\<close> method, so the downcast to \<^verbatim>\<open>placeholderDebugger\<close> fails and
  \<^verbatim>\<open>placeholder\<close> is \<^verbatim>\<open>"?"\<close>.
\<close>

function debugLoop :: "fmt \<Rightarrow> string \<Rightarrow> val list \<Rightarrow> string \<Rightarrow> nat \<Rightarrow> string" where
  "debugLoop F sql as bf i =
     (case strIndex sql ''?'' of
        None \<Rightarrow> debugFinish F sql as bf i
      | Some p \<Rightarrow>
          if length (drop p sql) > 1 \<and> take 2 (drop p sql) = ''??'' then
            (if length (drop p sql) = 1 then debugFinish F sql as (bf @ take p sql @ ''?'') i
             else debugLoop F (drop (p + 2) sql) as (bf @ take p sql @ ''?'') i)
          else if i + 1 > length as then tooManyPlaceholders F sql (length as)
          else
            debugLoop F (drop (p + 1) sql) as
              (bf @ take p sql @ [CHR 0x27] @ fmtV F (as ! i) @ [CHR 0x27]) (i + 1))"
  by pat_completeness auto
termination
proof (relation "measure (\<lambda>(F, sql, as, bf, i). length sql)")
  fix F :: fmt and sql :: string and as :: "val list" and bf :: string and i p :: nat
  assume "strIndex sql ''?'' = Some p"
  then have "sql \<noteq> []" by auto
  then show "((F, drop (p + 2) sql, as, bf @ take p sql @ ''?'', i), (F, sql, as, bf, i))
      \<in> measure (\<lambda>(F, sql, as, bf, i). length sql)"
    and "((F, drop (p + 1) sql, as, bf @ take p sql @ [CHR 0x27] @ fmtV F (as ! i) @ [CHR 0x27],
        i + 1), (F, sql, as, bf, i)) \<in> measure (\<lambda>(F, sql, as, bf, i). length sql)"
    by simp_all
qed simp

definition DebugSQLizer :: "fmt \<Rightarrow> sqlizer \<Rightarrow> string" where
  "DebugSQLizer F s =
     (case ToSQL s of
        (sql, as, Some e) \<Rightarrow> ''[ToSQL error: '' @ fmtErr F e @ '']''
      | (sql, as, None) \<Rightarrow> debugLoop F sql (elems as) [] 0)"

section \<open>Markers\<close>

text \<open>
  The number of non-escaped markers of a text, read left to right as the spec's
  rewrite pass does: a doubled marker is an escape and counts for nothing, a single
  marker counts for one.
\<close>

fun countMarkers :: "string \<Rightarrow> nat" where
  "countMarkers [] = 0"
| "countMarkers [c] = (if c = CHR ''?'' then 1 else 0)"
| "countMarkers (c # d # s) =
     (if c = CHR ''?'' then
        (if d = CHR ''?'' then countMarkers s else Suc (countMarkers (d # s)))
      else countMarkers (d # s))"

text \<open>The error a render returns.\<close>

definition errOf :: "result \<Rightarrow> error option" where
  "errOf r = snd (snd r)"

text \<open>The fragments among a list of arguments, in order.\<close>

fun fragmentsOf :: "val list \<Rightarrow> sqlizer list" where
  "fragmentsOf [] = []"
| "fragmentsOf (VSqlizer s # vs) = s # fragmentsOf vs"
| "fragmentsOf (v # vs) = fragmentsOf vs"

text \<open>The error of the first fragment of a list whose render fails, if any does.\<close>

fun firstErr :: "sqlizer list \<Rightarrow> error option" where
  "firstErr [] = None"
| "firstErr (s # ss) = (case errOf (ToSQL s) of Some e \<Rightarrow> Some e | None \<Rightarrow> firstErr ss)"

text \<open>
  The child pieces of a case expression in the order in which \<^verbatim>\<open>caseData.ToSQL\<close> writes
  them: \<^verbatim>\<open>What\<close>, then \<^verbatim>\<open>when\<close> and \<^verbatim>\<open>then\<close> of each part, then \<^verbatim>\<open>Else\<close>.
\<close>

definition caseChildren ::
  "sqlizer option \<Rightarrow> (sqlizer \<times> sqlizer) list \<Rightarrow> sqlizer option \<Rightarrow> sqlizer list" where
  "caseChildren what whenParts els =
     (case what of None \<Rightarrow> [] | Some w \<Rightarrow> [w])
       @ concat (map (\<lambda>p. [fst p, snd p]) whenParts)
       @ (case els of None \<Rightarrow> [] | Some e \<Rightarrow> [e])"

declare exprLoop.simps [simp del]
declare debugLoop.simps [simp del]

section \<open>Scanning a text for markers\<close>

lemma strIndex_q_None: "strIndex s ''?'' = None \<longleftrightarrow> CHR ''?'' \<notin> set s"
  by (induction s) auto

lemma strIndex_q_append:
  "CHR ''?'' \<notin> set pre \<Longrightarrow> strIndex (pre @ CHR ''?'' # rest) ''?'' = Some (length pre)"
  by (induction pre) auto

lemma goAppend_Nil [simp]: "goAppend as [] = as"
  by (cases as) auto

lemma elems_goAppend [simp]: "elems (goAppend as xs) = elems as @ xs"
  by (cases as; cases xs) auto

lemma marker_cases:
  obtains (none) "CHR ''?'' \<notin> set sp"
  | (escaped) pre rest where "sp = pre @ CHR ''?'' # CHR ''?'' # rest" "CHR ''?'' \<notin> set pre"
  | (single) pre rest where "sp = pre @ CHR ''?'' # rest" "CHR ''?'' \<notin> set pre"
      "rest = [] \<or> hd rest \<noteq> CHR ''?''"
proof (cases "CHR ''?'' \<in> set sp")
  case False
  then show ?thesis by (rule none)
next
  case True
  then obtain pre r where sp: "sp = pre @ CHR ''?'' # r" and pre: "CHR ''?'' \<notin> set pre"
    by (auto dest: split_list_first)
  show ?thesis
  proof (cases "r = [] \<or> hd r \<noteq> CHR ''?''")
    case True
    with sp pre show ?thesis by (intro single[of pre r]) auto
  next
    case False
    then obtain r' where "r = CHR ''?'' # r'" by (cases r) auto
    with sp pre show ?thesis by (intro escaped[of pre r']) auto
  qed
qed

section \<open>The expression composer\<close>

lemma exprLoop_Nil: "exprLoop sp [] bf as = (bf @ sp, as, None)"
  by (simp add: exprLoop.simps)

lemma exprLoop_none:
  "CHR ''?'' \<notin> set sp \<Longrightarrow> exprLoop sp ap bf as = (bf @ sp, goAppend as ap, None)"
  using strIndex_q_None[of sp] by (simp add: exprLoop.simps)

lemma exprLoop_escaped:
  assumes "CHR ''?'' \<notin> set pre"
  shows "exprLoop (pre @ CHR ''?'' # CHR ''?'' # rest) ap bf as = exprLoop rest ap (bf @ pre @ ''??'') as"
proof (cases ap)
  case Nil
  then show ?thesis by (simp add: exprLoop_Nil)
next
  case (Cons a ap')
  have "strIndex (pre @ CHR ''?'' # CHR ''?'' # rest) ''?'' = Some (length pre)"
    using strIndex_q_append[OF assms, of "CHR ''?'' # rest"] by simp
  then show ?thesis
    using Cons by (subst exprLoop.simps) simp
qed

lemma exprLoop_plain:
  assumes "CHR ''?'' \<notin> set pre" "rest = [] \<or> hd rest \<noteq> CHR ''?''" "\<not> isSQLizer a"
  shows "exprLoop (pre @ CHR ''?'' # rest) (a # ap) bf as
    = exprLoop rest ap (bf @ pre @ ''?'') (goAppend as [a])"
  using strIndex_q_append[OF assms(1), of rest] assms(2,3)
  by (subst exprLoop.simps) (cases rest; cases a; simp)

lemma exprLoop_frag_ok:
  assumes "CHR ''?'' \<notin> set pre" "rest = [] \<or> hd rest \<noteq> CHR ''?''"
    "ToSQL s = (isql, iargs, None)"
  shows "exprLoop (pre @ CHR ''?'' # rest) (VSqlizer s # ap) bf as
    = exprLoop rest ap (bf @ pre @ isql) (goAppend as (elems iargs))"
  using strIndex_q_append[OF assms(1), of rest] assms(2,3)
  by (subst exprLoop.simps) (cases rest; simp)

lemma exprLoop_frag_err:
  assumes "CHR ''?'' \<notin> set pre" "rest = [] \<or> hd rest \<noteq> CHR ''?''"
    "ToSQL s = (isql, iargs, Some e)"
  shows "exprLoop (pre @ CHR ''?'' # rest) (VSqlizer s # ap) bf as
    = (bf @ pre @ isql @ rest, goAppend (goAppend as (elems iargs)) ap, Some e)"
  using strIndex_q_append[OF assms(1), of rest] assms(2,3)
  by (subst exprLoop.simps) (cases rest; simp)

lemma countMarkers_none: "CHR ''?'' \<notin> set sp \<Longrightarrow> countMarkers sp = 0"
  by (induction sp rule: countMarkers.induct) auto

lemma countMarkers_escaped:
  "CHR ''?'' \<notin> set pre \<Longrightarrow> countMarkers (pre @ CHR ''?'' # CHR ''?'' # rest) = countMarkers rest"
proof (induction pre)
  case Nil
  then show ?case by simp
next
  case (Cons c pre)
  then show ?case by (cases pre) auto
qed

lemma countMarkers_single:
  "CHR ''?'' \<notin> set pre \<Longrightarrow> rest = [] \<or> hd rest \<noteq> CHR ''?''
    \<Longrightarrow> countMarkers (pre @ CHR ''?'' # rest) = Suc (countMarkers rest)"
proof (induction pre)
  case Nil
  then show ?case by (cases rest) auto
next
  case (Cons c pre)
  then show ?case by (cases pre) auto
qed


lemma exprLoop_err:
  "errOf (exprLoop sp ap bf as) = firstErr (fragmentsOf (take (countMarkers sp) ap))"
proof (induction "length sp" arbitrary: sp ap bf as rule: less_induct)
  case less
  show ?case
  proof (cases sp rule: marker_cases)
    case none
    then show ?thesis by (simp add: exprLoop_none countMarkers_none errOf_def)
  next
    case (escaped pre rest)
    then show ?thesis
      using less[of rest ap "bf @ pre @ ''??''" as]
      by (simp add: exprLoop_escaped countMarkers_escaped)
  next
    case (single pre rest)
    note cm = countMarkers_single[OF single(2,3)]
    show ?thesis
    proof (cases ap)
      case Nil
      then show ?thesis by (simp add: exprLoop_Nil errOf_def)
    next
      case (Cons a ap')
      show ?thesis
      proof (cases "isSQLizer a")
        case False
        then have "fragmentsOf (a # xs) = fragmentsOf xs" for xs by (cases a) auto
        then show ?thesis
          using less[of rest ap' "bf @ pre @ ''?''" "goAppend as [a]"] single Cons False cm
          by (simp add: exprLoop_plain)
      next
        case True
        then obtain s where a: "a = VSqlizer s" by (cases a) auto
        obtain isql iargs er where r: "ToSQL s = (isql, iargs, er)" by (cases "ToSQL s") auto
        show ?thesis
        proof (cases er)
          case None
          then show ?thesis
            using less[of rest ap' "bf @ pre @ isql" "goAppend as (elems iargs)"]
              single Cons a r cm
            by (simp add: exprLoop_frag_ok errOf_def)
        next
          case (Some e)
          then show ?thesis
            using single Cons a r cm by (simp add: exprLoop_frag_err errOf_def)
        qed
      qed
    qed
  qed
qed

lemma exprLoop_suffix:
  "suffix (drop (countMarkers sp) ap) (elems (fst (snd (exprLoop sp ap bf as))))"
proof (induction "length sp" arbitrary: sp ap bf as rule: less_induct)
  case less
  show ?case
  proof (cases sp rule: marker_cases)
    case none
    then show ?thesis by (simp add: exprLoop_none countMarkers_none suffix_def)
  next
    case (escaped pre rest)
    then show ?thesis
      using less[of rest ap "bf @ pre @ ''??''" as]
      by (simp add: exprLoop_escaped countMarkers_escaped)
  next
    case (single pre rest)
    note cm = countMarkers_single[OF single(2,3)]
    show ?thesis
    proof (cases ap)
      case Nil
      then show ?thesis by (simp add: exprLoop_Nil)
    next
      case (Cons a ap')
      show ?thesis
      proof (cases "isSQLizer a")
        case False
        then show ?thesis
          using less[of rest ap' "bf @ pre @ ''?''" "goAppend as [a]"] single Cons cm
          by (simp add: exprLoop_plain)
      next
        case True
        then obtain s where a: "a = VSqlizer s" by (cases a) auto
        obtain isql iargs er where r: "ToSQL s = (isql, iargs, er)" by (cases "ToSQL s") auto
        show ?thesis
        proof (cases er)
          case None
          then show ?thesis
            using less[of rest ap' "bf @ pre @ isql" "goAppend as (elems iargs)"]
              single Cons a r cm
            by (simp add: exprLoop_frag_ok)
        next
          case (Some e)
          have "suffix (drop (countMarkers rest) ap') (elems as @ elems iargs @ ap')"
            by (metis append_take_drop_id suffix_def append.assoc)
          then show ?thesis
            using Some single Cons a r cm by (simp add: exprLoop_frag_err)
        qed
      qed
    qed
  qed
qed

lemma exprLoop_buf:
  "exprLoop sp ap bf as = (case exprLoop sp ap [] as of (sql, out, er) \<Rightarrow> (bf @ sql, out, er))"
proof (induction "length sp" arbitrary: sp ap bf as rule: less_induct)
  case less
  show ?case
  proof (cases sp rule: marker_cases)
    case none
    then show ?thesis by (simp add: exprLoop_none)
  next
    case (escaped pre rest)
    then show ?thesis
      using less[of rest ap "bf @ pre @ ''??''" as] less[of rest ap "pre @ ''??''" as]
      by (simp add: exprLoop_escaped[of pre rest ap bf] exprLoop_escaped[of pre rest ap "[]"]
          split: prod.splits)
  next
    case (single pre rest)
    show ?thesis
    proof (cases ap)
      case Nil
      then show ?thesis by (simp add: exprLoop_Nil)
    next
      case (Cons a ap')
      show ?thesis
      proof (cases "isSQLizer a")
        case False
        then show ?thesis
          using less[of rest ap' "bf @ pre @ ''?''" "goAppend as [a]"]
            less[of rest ap' "pre @ ''?''" "goAppend as [a]"] single Cons
            exprLoop_plain[OF single(2,3) False, of ap' bf as]
            exprLoop_plain[OF single(2,3) False, of ap' "[]" as]
          by (simp split: prod.splits)
      next
        case True
        then obtain s where a: "a = VSqlizer s" by (cases a) auto
        obtain isql iargs er where r: "ToSQL s = (isql, iargs, er)" by (cases "ToSQL s") auto
        show ?thesis
        proof (cases er)
          case None
          then show ?thesis
            using less[of rest ap' "bf @ pre @ isql" "goAppend as (elems iargs)"]
              less[of rest ap' "pre @ isql" "goAppend as (elems iargs)"] single Cons a
              exprLoop_frag_ok[OF single(2,3), of s isql iargs ap' bf as]
              exprLoop_frag_ok[OF single(2,3), of s isql iargs ap' "[]" as] r
            by (simp split: prod.splits)
        next
          case (Some e)
          then show ?thesis
            using single Cons a r
              exprLoop_frag_err[OF single(2,3), of s isql iargs e ap' bf as]
              exprLoop_frag_err[OF single(2,3), of s isql iargs e ap' "[]" as]
            by simp
        qed
      qed
    qed
  qed
qed

lemma fragmentsOf_plain: "list_all (\<lambda>arg. \<not> isSQLizer arg) xs \<Longrightarrow> fragmentsOf xs = []"
  by (induction xs rule: fragmentsOf.induct) auto

lemma list_all_take: "list_all P xs \<Longrightarrow> list_all P (take n xs)"
  by (auto simp: list_all_iff dest: in_set_takeD)

lemma firstErr_None_iff: "firstErr ss = None \<longleftrightarrow> (\<forall>s \<in> set ss. errOf (ToSQL s) = None)"
  by (induction ss) (auto split: option.splits)

lemma firstErr_append:
  "firstErr (xs @ ys) = (case firstErr xs of Some e \<Rightarrow> Some e | None \<Rightarrow> firstErr ys)"
  by (induction xs) (auto split: option.splits)

lemma set_fragmentsOf: "s \<in> set (fragmentsOf vs) \<longleftrightarrow> VSqlizer s \<in> set vs"
  by (induction vs rule: fragmentsOf.induct) auto

lemma Expr_err:
  "errOf (ToSQL (Expr sql as)) = firstErr (fragmentsOf (take (countMarkers sql) (elems as)))"
proof (cases "list_all (\<lambda>arg. \<not> isSQLizer arg) (elems as)")
  case True
  then show ?thesis
    using fragmentsOf_plain[OF list_all_take[OF True, of "countMarkers sql"]]
    by (simp add: errOf_def)
next
  case False
  then show ?thesis by (simp add: exprLoop_err)
qed

lemma Expr_suffix:
  "suffix (drop (countMarkers sql) (elems as)) (elems (fst (snd (ToSQL (Expr sql as)))))"
proof (cases "list_all (\<lambda>arg. \<not> isSQLizer arg) (elems as)")
  case True
  then show ?thesis by (simp add: suffix_drop)
next
  case False
  then show ?thesis by (simp add: exprLoop_suffix)
qed

text \<open>
  C3. When no argument of an expression is a fragment, \<^verbatim>\<open>Expr(T, args...).ToSQL()\<close>
  returns the text \<open>T\<close>, the argument list as it is, and no error.
\<close>

theorem expr_fast_path:
  "\<forall>arg \<in> set (elems as). \<not> isSQLizer arg \<Longrightarrow> ToSQL (Expr T as) = (T, as, None)"
  by (simp add: list_all_iff)

theorem expr_fast_path_witness:
  "\<not> isSQLizer (VInt 1) \<and> \<not> isSQLizer (VStr ''text'')
   \<and> ToSQL (Expr ''x = ? AND y = ? AND z = ??'' (Some [VInt 1, VStr ''text'']))
     = (''x = ? AND y = ? AND z = ??'', Some [VInt 1, VStr ''text''], None)"
  using expr_fast_path[of "Some [VInt 1, VStr ''text'']" "''x = ? AND y = ? AND z = ??''"]
  by simp

text \<open>
  C4. An escaped marker \<^verbatim>\<open>??\<close> is copied into the output as it is, and no argument is
  consumed or bound for it: wherever the scan stands (\<open>pre\<close> is the text before the
  next marker), the loop goes on behind the pair with the same pending arguments and
  the same bound arguments; and an expression whose text begins with \<open>pre\<close> and the
  pair renders as the expression of the remaining text does, behind \<open>pre\<close> and the pair.
\<close>

theorem escaped_marker_verbatim:
  "CHR ''?'' \<notin> set pre \<Longrightarrow>
   exprLoop (pre @ ''??'' @ rest) ap bf as = exprLoop rest ap (bf @ pre @ ''??'') as
   \<and> ToSQL (Expr (pre @ ''??'' @ rest) avs)
     = (case ToSQL (Expr rest avs) of (sql, out, er) \<Rightarrow> (pre @ ''??'' @ sql, out, er))"
proof -
  assume pre: "CHR ''?'' \<notin> set pre"
  have 1: "exprLoop (pre @ ''??'' @ rest) ap bf as = exprLoop rest ap (bf @ pre @ ''??'') as"
    for ap bf as
    using exprLoop_escaped[OF pre, of rest ap bf as] by simp
  have 2: "ToSQL (Expr (pre @ ''??'' @ rest) avs)
     = (case ToSQL (Expr rest avs) of (sql, out, er) \<Rightarrow> (pre @ ''??'' @ sql, out, er))"
  proof (cases "list_all (\<lambda>arg. \<not> isSQLizer arg) (elems avs)")
    case True
    then show ?thesis by simp
  next
    case False
    then show ?thesis
      using 1[of "elems avs" "[]" None] exprLoop_buf[of rest "elems avs" "pre @ ''??''" None]
      by simp
  qed
  from 1 2 show ?thesis by blast
qed

theorem escaped_marker_verbatim_witness:
  "CHR ''?'' \<notin> set ''count(''
   \<and> ToSQL (Expr (''count('' @ ''??'' @ '')'') (Some [VSqlizer (Expr ''x'' None)]))
     = (''count(??)'', Some [VSqlizer (Expr ''x'' None)], None)"
  using escaped_marker_verbatim[of "''count(''" "'')''" "[]" "[]" None "Some [VSqlizer (Expr ''x'' None)]"]
  by (simp add: exprLoop_Nil exprLoop_none)

section \<open>Errors of nested fragments\<close>

lemma err_WriteString [simp]: "err (WriteString b s) = err b"
  by (simp add: WriteString_def)

lemma err_WriteSQL_result:
  "err (WriteSQL_result b r) = (case err b of Some e \<Rightarrow> Some e | None \<Rightarrow> errOf r)"
  by (cases r) (auto simp: WriteSQL_result_def errOf_def split: option.splits)

lemma err_whenLoop:
  "err (whenLoop ps b) = (case err b of Some e \<Rightarrow> Some e
     | None \<Rightarrow> firstErr (concat (map (\<lambda>p. [fst p, snd p]) ps)))"
proof (induction ps arbitrary: b)
  case Nil
  then show ?case by (simp split: option.splits)
next
  case (Cons p ps)
  then show ?case by (simp add: err_WriteSQL_result split: option.splits)
qed

lemma Case_err:
  assumes "whenParts \<noteq> []"
  shows "errOf (ToSQL (Case what whenParts els)) = firstErr (caseChildren what whenParts els)"
  using assms
  by (cases what; cases els)
    (simp_all add: errOf_def Let_def caseChildren_def err_whenLoop err_WriteSQL_result
      firstErr_append split: option.splits)

text \<open>
  C1, as amended. When the render of a fragment involves nested fragments, the error it
  returns is the error of the first nested fragment whose render fails, unchanged
  (and none when none fails): for an expression the nested fragments are the fragment
  arguments matched to a marker, for a case expression with a WHEN clause they are its
  child pieces. The text returned with the error is not cleared: the expression
  returns the buffer, the text before the marker, the text the nested render returned
  and the text after the marker.
\<close>

theorem nested_error_returned:
  "errOf (ToSQL (Expr sql as)) = firstErr (fragmentsOf (take (countMarkers sql) (elems as)))
   \<and> (whenParts \<noteq> [] \<longrightarrow>
        errOf (ToSQL (Case what whenParts els)) = firstErr (caseChildren what whenParts els))
   \<and> (ss = ok @ s # rest \<and> (\<forall>s' \<in> set ok. errOf (ToSQL s') = None) \<and> errOf (ToSQL s) = Some e
        \<longrightarrow> firstErr ss = Some e)
   \<and> (CHR ''?'' \<notin> set pre \<and> (sp = [] \<or> hd sp \<noteq> CHR ''?'') \<and> ToSQL s = (isql, iargs, Some e)
        \<longrightarrow> exprLoop (pre @ ''?'' @ sp) (VSqlizer s # ap) bf avs
            = (bf @ pre @ isql @ sp, goAppend (goAppend avs (elems iargs)) ap, Some e))"
proof (intro conjI impI)
  show "errOf (ToSQL (Expr sql as)) = firstErr (fragmentsOf (take (countMarkers sql) (elems as)))"
    by (rule Expr_err)
next
  assume "whenParts \<noteq> []"
  then show "errOf (ToSQL (Case what whenParts els)) = firstErr (caseChildren what whenParts els)"
    by (rule Case_err)
next
  assume a: "ss = ok @ s # rest \<and> (\<forall>s' \<in> set ok. errOf (ToSQL s') = None)
    \<and> errOf (ToSQL s) = Some e"
  then have "firstErr ok = None" by (simp add: firstErr_None_iff)
  with a show "firstErr ss = Some e" by (simp add: firstErr_append)
next
  assume "CHR ''?'' \<notin> set pre \<and> (sp = [] \<or> hd sp \<noteq> CHR ''?'') \<and> ToSQL s = (isql, iargs, Some e)"
  then show "exprLoop (pre @ ''?'' @ sp) (VSqlizer s # ap) bf avs
      = (bf @ pre @ isql @ sp, goAppend (goAppend avs (elems iargs)) ap, Some e)"
    using exprLoop_frag_err[of pre sp s isql iargs e ap bf avs] by simp
qed

theorem nested_error_returned_witness:
  "[(Part (VSqlizer (Lt [(''x'', VNil)])) None, Part (VStr ''1'') None)] \<noteq> []
   \<and> errOf (ToSQL (Lt [(''x'', VNil)]))
       = Some (ErrMsg ''cannot use null with less than or greater than operators'')
   \<and> CHR ''?'' \<notin> set ''a ''
   \<and> ToSQL (Expr ''a ? b'' (Some [VSqlizer (Lt [(''x'', VNil)])]))
       = (''a  b'', None, Some (ErrMsg ''cannot use null with less than or greater than operators''))
   \<and> errOf (ToSQL (Case None
         [(Part (VSqlizer (Lt [(''x'', VNil)])) None, Part (VStr ''1'') None)] None))
       = Some (ErrMsg ''cannot use null with less than or greater than operators'')"
  using nested_error_returned[where sql = "''a ? b''"
      and as = "Some [VSqlizer (Lt [(''x'', VNil)])]"
      and whenParts = "[(Part (VSqlizer (Lt [(''x'', VNil)])) None, Part (VStr ''1'') None)]"
      and what = None and els = None
      and ss = "[Lt [(''x'', VNil)]]" and ok = "[]" and s = "Lt [(''x'', VNil)]" and rest = "[]"
      and e = "ErrMsg ''cannot use null with less than or greater than operators''"
      and pre = "''a ''" and sp = "'' b''" and isql = "[]" and iargs = None
      and ap = "[]" and bf = "[]" and avs = None]
  by (simp add: errOf_def Lt_toSQL_def getSortedKeys_def mapIndex_def caseChildren_def)

text \<open>
  The claim as stated fails: both renders return their error together with text.
\<close>

theorem partial_text_counterexample:
  "errOf (ToSQL (Lt [(''x'', VNil)])) \<noteq> None
   \<and> errOf (ToSQL (Expr ''a ? b'' (Some [VSqlizer (Lt [(''x'', VNil)])])))
       = errOf (ToSQL (Lt [(''x'', VNil)]))
   \<and> fst (ToSQL (Expr ''a ? b'' (Some [VSqlizer (Lt [(''x'', VNil)])]))) = ''a  b''
   \<and> fst (ToSQL (Case None [(Part (VSqlizer (Lt [(''x'', VNil)])) None, Part (VStr ''1'') None)] None))
       = ''CASE WHEN THEN END''"
  by (simp add: exprLoop.simps errOf_def Lt_toSQL_def getSortedKeys_def mapIndex_def
      WriteString_def WriteSQL_result_def)

text \<open>
  C10, as amended. The arguments of an expression that no marker is matched to, the
  fragments among them included, end the output argument list as they are, not
  rendered; and the render succeeds when every fragment argument that is matched to a
  marker renders without error.
\<close>

theorem unmatched_fragment_appended:
  "suffix (drop (countMarkers sql) (elems as)) (elems (fst (snd (ToSQL (Expr sql as)))))
   \<and> ((\<forall>s. VSqlizer s \<in> set (take (countMarkers sql) (elems as)) \<longrightarrow> errOf (ToSQL s) = None)
        \<longrightarrow> errOf (ToSQL (Expr sql as)) = None)"
proof (intro conjI impI)
  show "suffix (drop (countMarkers sql) (elems as)) (elems (fst (snd (ToSQL (Expr sql as)))))"
    by (rule Expr_suffix)
next
  assume "\<forall>s. VSqlizer s \<in> set (take (countMarkers sql) (elems as)) \<longrightarrow> errOf (ToSQL s) = None"
  then have "firstErr (fragmentsOf (take (countMarkers sql) (elems as))) = None"
    by (simp add: firstErr_None_iff set_fragmentsOf)
  then show "errOf (ToSQL (Expr sql as)) = None"
    by (simp only: Expr_err)
qed

theorem unmatched_fragment_appended_witness:
  "take (countMarkers ''? ??'') [VSqlizer (Expr ''x'' None), VSqlizer (Expr ''y'' None)]
     = [VSqlizer (Expr ''x'' None)]
   \<and> errOf (ToSQL (Expr ''x'' None)) = None
   \<and> drop (countMarkers ''? ??'') [VSqlizer (Expr ''x'' None), VSqlizer (Expr ''y'' None)]
     = [VSqlizer (Expr ''y'' None)]
   \<and> ToSQL (Expr ''? ??'' (Some [VSqlizer (Expr ''x'' None), VSqlizer (Expr ''y'' None)]))
     = (''x ??'', Some [VSqlizer (Expr ''y'' None)], None)"
  using unmatched_fragment_appended[of "''? ??''"
      "Some [VSqlizer (Expr ''x'' None), VSqlizer (Expr ''y'' None)]"]
  by (simp add: exprLoop.simps errOf_def)

text \<open>
  The claim as stated fails: here the second argument is a fragment that no marker is
  matched to, and the render returns the error of the first.
\<close>

theorem unmatched_fragment_counterexample:
  "countMarkers ''?'' = 1
   \<and> errOf (ToSQL (Expr ''?'' (Some [VSqlizer (Lt [(''x'', VNil)]), VSqlizer (Expr ''y'' None)])))
       \<noteq> None"
  by (simp add: exprLoop.simps errOf_def Lt_toSQL_def getSortedKeys_def mapIndex_def)


section \<open>Equality maps\<close>

text \<open>
  C5, as amended. \<^verbatim>\<open>Eq{}\<close> and \<^verbatim>\<open>NotEq{}\<close> both render the true literal \<^verbatim>\<open>(1=1)\<close> with no
  error; the argument list is the nil slice (the named result is never assigned), of
  length 0.
\<close>

theorem empty_eq_ToSQL:
  "ToSQL (Eq []) = (''(1=1)'', None, None) \<and> ToSQL (NotEq []) = (''(1=1)'', None, None)"
  by (simp add: Eq_toSQL_def sqlTrue_def)

theorem empty_eq_ToSQL_witness:
  "fst (ToSQL (Eq [])) = ''(1=1)'' \<and> elems (fst (snd (ToSQL (NotEq [])))) = []"
  using empty_eq_ToSQL by simp

text \<open>The claim as stated fails: the argument list is nil, not the empty slice.\<close>

theorem empty_eq_args_counterexample:
  "fst (snd (ToSQL (Eq []))) \<noteq> Some [] \<and> fst (snd (ToSQL (NotEq []))) \<noteq> Some []"
  by (simp add: Eq_toSQL_def)







section \<open>Key order\<close>

text \<open>
  \<^verbatim>\<open>Eq.toSQL\<close> and \<^verbatim>\<open>Lt.toSQL\<close> go through the sorted keys, so their render does not
  depend on the order in which \<^verbatim>\<open>range\<close> yields the entries of the map.
\<close>

lemma getSortedKeys_set:
  assumes "distinct (map fst m)" "distinct (map fst m')" "set m = set m'"
  shows "getSortedKeys m = getSortedKeys m'"
proof -
  have "set (map fst m) = set (map fst m')" using assms(3) by simp
  then show ?thesis
    unfolding getSortedKeys_def
    using assms(1,2) by (intro sorted_distinct_set_unique) simp_all
qed

lemma mapIndex_set:
  assumes "distinct (map fst m)" "distinct (map fst m')" "set m = set m'"
  shows "mapIndex m = mapIndex m'"
  using map_of_inject_set[OF assms(1,2)] assms(3) by (auto simp: mapIndex_def fun_eq_iff)

lemma eqLoop_mapIndex:
  assumes "mapIndex m = mapIndex m'"
  shows "eqLoop u m ks exprs avs = eqLoop u m' ks exprs avs"
proof (induction ks arbitrary: exprs avs)
  case Nil
  show ?case by simp
next
  case (Cons k ks)
  show ?case
    by (simp only: eqLoop.simps Let_def assms Cons.IH)
qed

lemma ltLoop_mapIndex:
  "mapIndex m = mapIndex m' \<Longrightarrow> ltLoop opr m ks exprs avs = ltLoop opr m' ks exprs avs"
  by (induction ks arbitrary: exprs avs) (simp_all add: Let_def split: sum.splits option.splits)

lemma sorted_keys_deterministic:
  assumes "distinct (map fst m)" "distinct (map fst m')" "set m = set m'"
  shows "Eq_toSQL m useNotOpr = Eq_toSQL m' useNotOpr"
    and "Lt_toSQL m opposite orEq = Lt_toSQL m' opposite orEq"
proof -
  have e: "m = [] \<longleftrightarrow> m' = []" using assms(3) by (metis set_empty)
  show "Eq_toSQL m useNotOpr = Eq_toSQL m' useNotOpr"
    using e getSortedKeys_set[OF assms] eqLoop_mapIndex[OF mapIndex_set[OF assms]]
    by (simp add: Eq_toSQL_def)
  show "Lt_toSQL m opposite orEq = Lt_toSQL m' opposite orEq"
    using getSortedKeys_set[OF assms] ltLoop_mapIndex[OF mapIndex_set[OF assms]]
    by (simp add: Lt_toSQL_def Let_def)
qed

text \<open>
  C2. \<^verbatim>\<open>Like.toSQL\<close> ranges over the map itself instead of the sorted keys: when
  \<^verbatim>\<open>range\<close> yields \<^verbatim>\<open>b\<close> before \<^verbatim>\<open>a\<close> the render visits \<^verbatim>\<open>b\<close> first, so two renders of the
  map \<^verbatim>\<open>{"a": 1, "b": 2}\<close> can differ in text and in argument order.
\<close>

theorem like_map_order:
  "ToSQL (Like [(''b'', VInt 2), (''a'', VInt 1)])
     = (''b LIKE ? AND a LIKE ?'', Some [VInt 2, VInt 1], None)
   \<and> ToSQL (Like [(''a'', VInt 1), (''b'', VInt 2)])
     = (''a LIKE ? AND b LIKE ?'', Some [VInt 1, VInt 2], None)"
  by (simp add: Like_toSQL_def isListType_def)

section \<open>Empty pointers in comparison and pattern-match maps\<close>

text \<open>
  C7. \<^verbatim>\<open>Lt.toSQL\<close> and \<^verbatim>\<open>Like.toSQL\<close> test \<^verbatim>\<open>val == nil\<close> without the pointer step that
  \<^verbatim>\<open>Eq.toSQL\<close> runs first. An empty pointer is not nil to that test, so each of the
  eight comparison and pattern-match maps renders the entry and binds the pointer,
  where the claim has the render fail; \<^verbatim>\<open>Eq\<close> and \<^verbatim>\<open>NotEq\<close> take the same entry for null.
\<close>

theorem comparison_maps_bind_nil_pointer:
  "ToSQL (Lt [(''x'', VNilPtr)]) = (''x < ?'', Some [VNilPtr], None)
   \<and> ToSQL (LtOrEq [(''x'', VNilPtr)]) = (''x <= ?'', Some [VNilPtr], None)
   \<and> ToSQL (Gt [(''x'', VNilPtr)]) = (''x > ?'', Some [VNilPtr], None)
   \<and> ToSQL (GtOrEq [(''x'', VNilPtr)]) = (''x >= ?'', Some [VNilPtr], None)
   \<and> ToSQL (Like [(''x'', VNilPtr)]) = (''x LIKE ?'', Some [VNilPtr], None)
   \<and> ToSQL (NotLike [(''x'', VNilPtr)]) = (''x NOT LIKE ?'', Some [VNilPtr], None)
   \<and> ToSQL (ILike [(''x'', VNilPtr)]) = (''x ILIKE ?'', Some [VNilPtr], None)
   \<and> ToSQL (NotILike [(''x'', VNilPtr)]) = (''x NOT ILIKE ?'', Some [VNilPtr], None)
   \<and> ToSQL (Eq [(''x'', VNilPtr)]) = (''x IS NULL'', None, None)
   \<and> ToSQL (NotEq [(''x'', VNilPtr)]) = (''x IS NOT NULL'', None, None)"
  by (simp add: Like_toSQL_def Lt_toSQL_def Eq_toSQL_def isListType_def getSortedKeys_def
      mapIndex_def)

section \<open>The debug renderer\<close>

lemma debugLoop_none:
  "CHR ''?'' \<notin> set sql \<Longrightarrow> debugLoop F sql as bf i = debugFinish F sql as bf i"
  using strIndex_q_None[of sql] by (simp add: debugLoop.simps)

lemma debugLoop_escaped:
  assumes "CHR ''?'' \<notin> set pre"
  shows "debugLoop F (pre @ CHR ''?'' # CHR ''?'' # rest) as bf i
    = debugLoop F rest as (bf @ pre @ ''?'') i"
  using strIndex_q_append[OF assms, of "CHR ''?'' # rest"]
  by (subst debugLoop.simps) simp

lemma debugLoop_single:
  assumes "CHR ''?'' \<notin> set pre" "rest = [] \<or> hd rest \<noteq> CHR ''?''"
  shows "debugLoop F (pre @ CHR ''?'' # rest) as bf i
    = (if i + 1 > length as then tooManyPlaceholders F (pre @ CHR ''?'' # rest) (length as)
       else debugLoop F rest as (bf @ pre @ [CHR 0x27] @ fmtV F (as ! i) @ [CHR 0x27]) (i + 1))"
  using strIndex_q_append[OF assms(1), of rest] assms(2)
  by (subst debugLoop.simps) (cases rest; simp)

lemma suffix_escaped: "suffix s rest \<Longrightarrow> suffix s (pre @ c # d # rest)"
  by (metis suffix_Cons suffix_appendI)

lemma suffix_single: "suffix s rest \<Longrightarrow> suffix s (pre @ c # rest)"
  by (metis suffix_Cons suffix_appendI)

lemma debugLoop_too_many:
  "countMarkers sql > length as - i \<Longrightarrow> i \<le> length as \<Longrightarrow>
   \<exists>sql'. suffix sql' sql \<and> debugLoop F sql as bf i = tooManyPlaceholders F sql' (length as)"
proof (induction "length sql" arbitrary: sql bf i rule: less_induct)
  case less
  show ?case
  proof (cases sql rule: marker_cases)
    case none
    then show ?thesis using less.prems by (simp add: countMarkers_none)
  next
    case (escaped pre rest)
    then have "countMarkers rest > length as - i"
      using less.prems by (simp add: countMarkers_escaped)
    from less.hyps[OF _ this less.prems(2), of "bf @ pre @ ''?''"] escaped
    obtain sql' where s: "suffix sql' rest"
      and d: "debugLoop F rest as (bf @ pre @ ''?'') i = tooManyPlaceholders F sql' (length as)"
      by auto
    show ?thesis
      unfolding escaped(1) debugLoop_escaped[OF escaped(2)]
      using suffix_escaped[OF s] d by blast
  next
    case (single pre rest)
    show ?thesis
    proof (cases "i + 1 > length as")
      case True
      then show ?thesis
        unfolding single(1) debugLoop_single[OF single(2,3)] by auto
    next
      case False
      then have "countMarkers rest > length as - (i + 1)" "i + 1 \<le> length as"
        using less.prems single by (simp_all add: countMarkers_single)
      from less.hyps[OF _ this, of "bf @ pre @ [CHR 0x27] @ fmtV F (as ! i) @ [CHR 0x27]"] single
      obtain sql' where s: "suffix sql' rest"
        and d: "debugLoop F rest as (bf @ pre @ [CHR 0x27] @ fmtV F (as ! i) @ [CHR 0x27]) (i + 1)
          = tooManyPlaceholders F sql' (length as)"
        by auto
      show ?thesis
        unfolding single(1) debugLoop_single[OF single(2,3)]
        using suffix_single[OF s] d False by auto
    qed
  qed
qed

lemma debugLoop_not_enough:
  "countMarkers sql < length as - i \<Longrightarrow>
   \<exists>sql'. suffix sql' sql \<and> debugLoop F sql as bf i = notEnoughPlaceholders F sql' (length as)"
proof (induction "length sql" arbitrary: sql bf i rule: less_induct)
  case less
  show ?case
  proof (cases sql rule: marker_cases)
    case none
    then show ?thesis using less.prems by (auto simp: debugLoop_none debugFinish_def)
  next
    case (escaped pre rest)
    then have "countMarkers rest < length as - i"
      using less.prems by (simp add: countMarkers_escaped)
    from less.hyps[OF _ this, of "bf @ pre @ ''?''"] escaped
    obtain sql' where s: "suffix sql' rest"
      and d: "debugLoop F rest as (bf @ pre @ ''?'') i = notEnoughPlaceholders F sql' (length as)"
      by auto
    show ?thesis
      unfolding escaped(1) debugLoop_escaped[OF escaped(2)]
      using suffix_escaped[OF s] d by blast
  next
    case (single pre rest)
    then have c: "countMarkers rest < length as - (i + 1)" and i: "\<not> i + 1 > length as"
      using less.prems by (simp_all add: countMarkers_single)
    from less.hyps[OF _ c, of "bf @ pre @ [CHR 0x27] @ fmtV F (as ! i) @ [CHR 0x27]"] single
    obtain sql' where s: "suffix sql' rest"
      and d: "debugLoop F rest as (bf @ pre @ [CHR 0x27] @ fmtV F (as ! i) @ [CHR 0x27]) (i + 1)
        = notEnoughPlaceholders F sql' (length as)"
      by auto
    show ?thesis
      unfolding single(1) debugLoop_single[OF single(2,3)]
      using suffix_single[OF s] d i by auto
  qed
qed

lemma diagnostics_differ: "tooManyPlaceholders F s n \<noteq> notEnoughPlaceholders F s' n'"
  by (simp add: tooManyPlaceholders_def notEnoughPlaceholders_def)


text \<open>
  C9. For a statement that renders without error, \<^verbatim>\<open>DebugSQLizer\<close> returns a diagnostic
  when the text has more non-escaped markers than there are arguments (``too many
  placeholders'', with the text left at the marker that has no argument), and
  another when it has fewer (``not enough placeholders''); it returns the diagnostic
  alone, not the interpolated text, and the two are never the same string.
\<close>

theorem debug_reports_mismatch:
  "ToSQL s = (sql, as, None) \<Longrightarrow>
   (countMarkers sql > length (elems as) \<longrightarrow>
      (\<exists>sql'. suffix sql' sql
         \<and> DebugSQLizer F s = tooManyPlaceholders F sql' (length (elems as)))
      \<and> prefix ''[DebugSQLizer error: too many placeholders in '' (DebugSQLizer F s))
   \<and> (countMarkers sql < length (elems as) \<longrightarrow>
      (\<exists>sql'. suffix sql' sql
         \<and> DebugSQLizer F s = notEnoughPlaceholders F sql' (length (elems as)))
      \<and> prefix ''[DebugSQLizer error: not enough placeholders in '' (DebugSQLizer F s))
   \<and> (\<forall>t t' n n'. tooManyPlaceholders F t n \<noteq> notEnoughPlaceholders F t' n')"
proof -
  assume r: "ToSQL s = (sql, as, None)"
  then have d: "DebugSQLizer F s = debugLoop F sql (elems as) [] 0"
    by (simp add: DebugSQLizer_def)
  have many: "prefix ''[DebugSQLizer error: too many placeholders in '' (tooManyPlaceholders F t n)"
    for t n by (simp add: tooManyPlaceholders_def)
  have few: "prefix ''[DebugSQLizer error: not enough placeholders in ''
      (notEnoughPlaceholders F t n)"
    for t n by (simp add: notEnoughPlaceholders_def)
  have 1: "(\<exists>sql'. suffix sql' sql
         \<and> DebugSQLizer F s = tooManyPlaceholders F sql' (length (elems as)))
      \<and> prefix ''[DebugSQLizer error: too many placeholders in '' (DebugSQLizer F s)"
    if "countMarkers sql > length (elems as)"
    using debugLoop_too_many[of "elems as" 0 sql F "[]"] that many unfolding d by auto
  have 2: "(\<exists>sql'. suffix sql' sql
         \<and> DebugSQLizer F s = notEnoughPlaceholders F sql' (length (elems as)))
      \<and> prefix ''[DebugSQLizer error: not enough placeholders in '' (DebugSQLizer F s)"
    if "countMarkers sql < length (elems as)"
    using debugLoop_not_enough[of sql "elems as" 0 F "[]"] that few unfolding d by auto
  from 1 2 diagnostics_differ show ?thesis by blast
qed

theorem debug_reports_mismatch_witness:
  "ToSQL (Expr ''x = ?'' (Some [VInt 1, VInt 2])) = (''x = ?'', Some [VInt 1, VInt 2], None)
   \<and> countMarkers ''x = ?'' < length (elems (Some [VInt 1, VInt 2]))
   \<and> prefix ''[DebugSQLizer error: not enough placeholders in ''
        (DebugSQLizer \<lparr>fmtErr = \<lambda>e. [], fmtV = \<lambda>v. [], fmtSharpV = \<lambda>t. t, fmtD = \<lambda>n. []\<rparr>
          (Expr ''x = ?'' (Some [VInt 1, VInt 2])))
   \<and> ToSQL (Expr ''x = ? AND y = ?'' (Some [VInt 1])) = (''x = ? AND y = ?'', Some [VInt 1], None)
   \<and> countMarkers ''x = ? AND y = ?'' > length (elems (Some [VInt 1]))
   \<and> prefix ''[DebugSQLizer error: too many placeholders in ''
        (DebugSQLizer \<lparr>fmtErr = \<lambda>e. [], fmtV = \<lambda>v. [], fmtSharpV = \<lambda>t. t, fmtD = \<lambda>n. []\<rparr>
          (Expr ''x = ? AND y = ?'' (Some [VInt 1])))"
  using debug_reports_mismatch[of "Expr ''x = ?'' (Some [VInt 1, VInt 2])" "''x = ?''"
      "Some [VInt 1, VInt 2]"
      "\<lparr>fmtErr = \<lambda>e. [], fmtV = \<lambda>v. [], fmtSharpV = \<lambda>t. t, fmtD = \<lambda>n. []\<rparr>"]
    debug_reports_mismatch[of "Expr ''x = ? AND y = ?'' (Some [VInt 1])" "''x = ? AND y = ?''"
      "Some [VInt 1]"
      "\<lparr>fmtErr = \<lambda>e. [], fmtV = \<lambda>v. [], fmtSharpV = \<lambda>t. t, fmtD = \<lambda>n. []\<rparr>"]
  by simp

section \<open>Conjunctions of zero fragments\<close>

lemma ToSQL_And_conj_join: "ToSQL (And c) = conj_join c '' AND '' sqlTrue"
  by (simp add: conj_join_def)

lemma ToSQL_Or_conj_join: "ToSQL (Or c) = conj_join c '' OR '' sqlFalse"
  by (simp add: conj_join_def)

text \<open>
  C8. \<^verbatim>\<open>And{}\<close> renders the true literal \<^verbatim>\<open>(1=1)\<close> and \<^verbatim>\<open>Or{}\<close> the false literal
  \<^verbatim>\<open>(1=0)\<close>, each with an empty, non-nil argument list and no error.
\<close>

theorem empty_conj_ToSQL:
  "ToSQL (And []) = (''(1=1)'', Some [], None) \<and> ToSQL (Or []) = (''(1=0)'', Some [], None)"
  by (simp add: sqlTrue_def sqlFalse_def)

theorem empty_conj_ToSQL_witness:
  "fst (snd (ToSQL (And []))) = Some [] \<and> fst (ToSQL (Or [])) = ''(1=0)''"
  using empty_conj_ToSQL by simp

end
